theory Spec2Isabelle
  imports Main "HOL-Library.AList"
begin

section \<open>Data model\<close>

text \<open>
  A proposition is a 2-tuple \<open>(symbol, location)\<close>, for example \<open>("P", (1, 1))\<close>.
  Python integers are unbounded, so a location is a pair of \<open>int\<close>.
\<close>

type_synonym location = "int \<times> int"
type_synonym maze_prop = "string \<times> location"

text \<open>
  A Python \<open>dict\<close> keeps its keys distinct and in insertion order; it is modelled as an
  association list in that order. \<open>d[k] = v\<close> is \<open>AList.update k v d\<close> (an existing key keeps
  its position, a new key goes to the end), \<open>del d[k]\<close> is \<open>AList.delete k d\<close>, \<open>d[k]\<close>
  and \<open>d.get(k)\<close> are \<open>map_of d k\<close>, and \<open>k in d\<close> is \<open>k \<in> fst ` set d\<close>.
\<close>

type_synonym ('k, 'v) dict = "('k \<times> 'v) list"

text \<open>The class \<open>MazeClause\<close>: its two attributes.\<close>

record MazeClause =
  props :: "(maze_prop, bool) dict"
  valid :: bool

section \<open>maze\_clause.py\<close>

text \<open>
  \<open>MazeClause.__init__\<close>: the loop over the given sequence, with the dictionary built so
  far as accumulator. The \<open>return\<close> inside the loop is the branch that does not recurse.
\<close>

fun MazeClause_init_loop ::
  "(maze_prop \<times> bool) list \<Rightarrow> (maze_prop, bool) dict \<Rightarrow> MazeClause" where
  "MazeClause_init_loop [] d = \<lparr>props = d, valid = False\<rparr>"
| "MazeClause_init_loop ((prop, truth_value) # rest) d =
     (if prop \<in> fst ` set d then
        (if map_of d prop \<noteq> Some truth_value then \<lparr>props = [], valid = True\<rparr>
         else MazeClause_init_loop rest d)
      else MazeClause_init_loop rest (AList.update prop truth_value d))"

definition MazeClause_init :: "(maze_prop \<times> bool) list \<Rightarrow> MazeClause" where
  "MazeClause_init ps = MazeClause_init_loop ps []"

definition get_prop :: "MazeClause \<Rightarrow> maze_prop \<Rightarrow> bool option" where
  "get_prop c prop = (if \<not> prop \<in> fst ` set (props c) then None else map_of (props c) prop)"

definition is_valid :: "MazeClause \<Rightarrow> bool" where
  "is_valid c = valid c"

definition is_empty :: "MazeClause \<Rightarrow> bool" where
  "is_empty c = ((\<not> valid c) \<and> length (props c) = 0)"

definition MazeClause_len :: "MazeClause \<Rightarrow> nat" where
  "MazeClause_len c = length (props c)"

text \<open>
  \<open>__eq__\<close> compares \<open>frozenset(self.props)\<close>, the set of keys, and the flag.
\<close>

definition MazeClause_eq :: "MazeClause \<Rightarrow> MazeClause \<Rightarrow> bool" where
  "MazeClause_eq c other =
     (fst ` set (props c) = fst ` set (props other) \<and> valid c = valid other)"

text \<open>
  \<open>__hash__\<close> returns \<open>hash((frozenset(self.props.items()), self.valid))\<close>. The builtin
  \<open>hash\<close> is not code of this repository. \<open>MazeClause_hash\<close> is the tuple that is hashed:
  it stands for a builtin hash without collisions, under which two hash values are equal
  exactly when the hashed tuples are. Python's builtin does collide on some tuples (the
  integers \<open>-1\<close> and \<open>-2\<close> have the same hash), so the functions whose result can depend
  on a collision are given a second time below, with the builtin hash as a parameter
  (\<open>MazeClause_hash_with\<close>, \<open>ask_with\<close>).
\<close>

definition MazeClause_hash :: "MazeClause \<Rightarrow> (maze_prop \<times> bool) set \<times> bool" where
  "MazeClause_hash c = (set (props c), valid c)"

section \<open>Python sets of clauses\<close>

text \<open>
  A \<open>set\<close> of objects treats two of them as the same element when their hashes are equal
  and \<open>__eq__\<close> holds. A set is modelled as the list of its elements in iteration order;
  Python leaves that order unspecified, and the model lets an added element go last.
\<close>

type_synonym clause_set = "MazeClause list"

definition same_element :: "MazeClause \<Rightarrow> MazeClause \<Rightarrow> bool" where
  "same_element c d = (MazeClause_hash c = MazeClause_hash d \<and> MazeClause_eq c d)"

definition set_contains :: "clause_set \<Rightarrow> MazeClause \<Rightarrow> bool" where
  "set_contains s c = list_ex (\<lambda>d. same_element d c) s"

definition set_add :: "clause_set \<Rightarrow> MazeClause \<Rightarrow> clause_set" where
  "set_add s c = (if set_contains s c then s else s @ [c])"

definition set_update :: "clause_set \<Rightarrow> clause_set \<Rightarrow> clause_set" where
  "set_update s t = fold (\<lambda>c acc. set_add acc c) t s"

definition set_issubset :: "clause_set \<Rightarrow> clause_set \<Rightarrow> bool" where
  "set_issubset s t = list_all (set_contains t) s"

definition set_union :: "clause_set \<Rightarrow> clause_set \<Rightarrow> clause_set" where
  "set_union s t = set_update s t"

definition set_difference :: "clause_set \<Rightarrow> clause_set \<Rightarrow> clause_set" where
  "set_difference s t = filter (\<lambda>c. \<not> set_contains t c) s"

text \<open>
  \<open>MazeClause.resolve\<close>. The first loop collects the complementary propositions in the
  order of \<open>c1.props\<close>; \<open>{**c1.props, **c2.props}\<close> stores the items of \<open>c2\<close> one by one
  into a copy of \<open>c1.props\<close>.
\<close>

definition complementary_props :: "MazeClause \<Rightarrow> MazeClause \<Rightarrow> maze_prop list" where
  "complementary_props c1 c2 =
     filter (\<lambda>prop. prop \<in> fst ` set (props c2) \<and> map_of (props c1) prop \<noteq> map_of (props c2) prop)
       (map fst (props c1))"

definition dict_merge :: "('k, 'v) dict \<Rightarrow> ('k, 'v) dict \<Rightarrow> ('k, 'v) dict" where
  "dict_merge d1 d2 = fold (\<lambda>(k, v) d. AList.update k v d) d2 d1"

definition resolve :: "MazeClause \<Rightarrow> MazeClause \<Rightarrow> clause_set" where
  "resolve c1 c2 =
     (let resolvents = [];
          cps = complementary_props c1 c2
      in if length cps \<noteq> 1 then resolvents
         else
           let complementary_prop = hd cps;
               new_props = AList.delete complementary_prop (dict_merge (props c1) (props c2));
               new_clause = MazeClause_init new_props
           in if \<not> valid new_clause then set_add resolvents new_clause else resolvents)"

section \<open>maze\_knowledge\_base.py\<close>

text \<open>The class \<open>MazeKnowledgeBase\<close>: its one attribute, a set of clauses.\<close>

record MazeKnowledgeBase =
  clauses :: clause_set

definition MazeKnowledgeBase_init :: MazeKnowledgeBase where
  "MazeKnowledgeBase_init = \<lparr>clauses = []\<rparr>"

definition tell :: "MazeKnowledgeBase \<Rightarrow> MazeClause \<Rightarrow> MazeKnowledgeBase" where
  "tell kb clause = kb\<lparr>clauses := set_add (clauses kb) clause\<rparr>"

text \<open>
  \<open>itertools.combinations(s, 2)\<close>: the pairs of elements at positions \<open>i < j\<close> of the
  iteration, in lexicographic order of the positions.
\<close>

fun combinations2 :: "'a list \<Rightarrow> ('a \<times> 'a) list" where
  "combinations2 [] = []"
| "combinations2 (x # xs) = map (Pair x) xs @ combinations2 xs"

text \<open>
  Values have no identity, so the copy that \<open>deepcopy\<close> makes is the value itself; what
  matters is that \<open>ask\<close> updates the copy and not \<open>self.clauses\<close>.
\<close>

definition deepcopy :: "clause_set \<Rightarrow> clause_set" where
  "deepcopy s = s"

text \<open>
  The \<open>for\<close> loop of \<open>ask\<close> over the pairs, with \<open>new\<close> as accumulator: \<open>Inl True\<close> is the
  \<open>return True\<close> inside the loop, \<open>Inr new\<close> the set \<open>new\<close> when the loop has run through.
\<close>

fun ask_for :: "(MazeClause \<times> MazeClause) list \<Rightarrow> clause_set \<Rightarrow> bool + clause_set" where
  "ask_for [] new = Inr new"
| "ask_for ((clause1, clause2) # rest) new =
     (let resolved_clauses = resolve clause1 clause2
      in if set_contains resolved_clauses (MazeClause_init []) then Inl True
         else ask_for rest (set_update new resolved_clauses))"

text \<open>
  The \<open>while True\<close> loop of \<open>ask\<close>. It has no bound in the source, so it is a partial
  function: \<open>None\<close> is a loop that never returns.
\<close>

partial_function (option) ask_while :: "clause_set \<Rightarrow> clause_set \<Rightarrow> bool option" where
  "ask_while temp_kb new =
     (case ask_for (combinations2 temp_kb) new of
        Inl b \<Rightarrow> Some b
      | Inr new' \<Rightarrow>
          if set_issubset new' temp_kb then Some False
          else ask_while (set_update temp_kb new') new')"

declare ask_while.simps [code]

text \<open>
  \<open>ask\<close> returns its answer together with the knowledge base as the call leaves it. The
  dictionary comprehension stores each key of the query with the negated value.
\<close>

definition ask :: "MazeKnowledgeBase \<Rightarrow> MazeClause \<Rightarrow> (bool \<times> MazeKnowledgeBase) option" where
  "ask kb query =
     (let negated_props = fold (\<lambda>(k, val) d. AList.update k (\<not> val) d) (props query) [];
          negated_query = MazeClause_init negated_props;
          temp_kb = set_add (deepcopy (clauses kb)) negated_query;
          new = []
      in map_option (\<lambda>b. (b, kb)) (ask_while temp_kb new))"

text \<open>
  The loop of \<open>get_simplified_clauses\<close> over the clauses in iteration order, with
  \<open>to_add\<close> and \<open>to_rem\<close> as accumulators; the \<open>break\<close> is the branch that does not recurse.
\<close>

fun get_simplified_loop ::
  "MazeClause list \<Rightarrow> location \<Rightarrow> bool \<Rightarrow> MazeClause \<Rightarrow> clause_set \<Rightarrow> clause_set
     \<Rightarrow> clause_set \<times> clause_set" where
  "get_simplified_loop [] loc is_pit sani_clause to_add to_rem = (to_add, to_rem)"
| "get_simplified_loop (clause # rest) loc is_pit sani_clause to_add to_rem =
     (if MazeClause_len clause = 1 then
        get_simplified_loop rest loc is_pit sani_clause to_add to_rem
      else if get_prop clause (''P'', loc) = Some is_pit then
        (to_add, set_add to_rem clause)
      else
        get_simplified_loop rest loc is_pit sani_clause
          (set_update to_add (resolve clause sani_clause)) to_rem)"

definition get_simplified_clauses :: "clause_set \<Rightarrow> location \<Rightarrow> bool \<Rightarrow> clause_set" where
  "get_simplified_clauses cls loc is_pit =
     (let sani_clause = MazeClause_init [((''P'', loc), is_pit)];
          (to_add, to_rem) = get_simplified_loop cls loc is_pit sani_clause [] [];
          cls1 = set_union cls to_add;
          cls2 = set_difference cls1 to_rem
      in cls2)"

text \<open>
  A set of locations is the list of its elements in iteration order; tuples of integers
  are compared by value. \<open>known_pits | known_safe\<close> is \<open>locs_union\<close>.
\<close>

definition locs_union :: "location list \<Rightarrow> location list \<Rightarrow> location list" where
  "locs_union a b = a @ filter (\<lambda>loc. loc \<notin> set a) b"

definition simplify_from_known_locs ::
  "clause_set \<Rightarrow> location list \<Rightarrow> location list \<Rightarrow> clause_set" where
  "simplify_from_known_locs cls known_pits known_safe =
     fold (\<lambda>loc acc. get_simplified_clauses acc loc (loc \<in> set known_pits))
       (locs_union known_pits known_safe) cls"

definition simplify_self ::
  "MazeKnowledgeBase \<Rightarrow> location list \<Rightarrow> location list \<Rightarrow> MazeKnowledgeBase" where
  "simplify_self kb known_pits known_safe =
     kb\<lparr>clauses := simplify_from_known_locs (clauses kb) known_pits known_safe\<rparr>"

section \<open>The builtin hash as a parameter\<close>

text \<open>
  The hash of a clause, the set operations and \<open>ask\<close> once more, line by line as above,
  with the builtin \<open>hash\<close> as the parameter \<open>h\<close>: any function from the hashed tuple to a
  hash value. Two clauses are the same element of a set when \<open>h\<close> gives their tuples the
  same value and \<open>__eq__\<close> holds, so two clauses with the same keys and different
  polarities are one element exactly when \<open>h\<close> collides on them.
\<close>

definition MazeClause_hash_with :: "((maze_prop \<times> bool) set \<times> bool \<Rightarrow> 'h) \<Rightarrow> MazeClause \<Rightarrow> 'h" where
  "MazeClause_hash_with h c = h (set (props c), valid c)"

definition same_element_with :: "((maze_prop \<times> bool) set \<times> bool \<Rightarrow> 'h) \<Rightarrow> MazeClause \<Rightarrow> MazeClause \<Rightarrow> bool" where
  "same_element_with h c d =
     (MazeClause_hash_with h c = MazeClause_hash_with h d \<and> MazeClause_eq c d)"

definition set_contains_with :: "((maze_prop \<times> bool) set \<times> bool \<Rightarrow> 'h) \<Rightarrow> clause_set \<Rightarrow> MazeClause \<Rightarrow> bool" where
  "set_contains_with h s c = list_ex (\<lambda>d. same_element_with h d c) s"

definition set_add_with :: "((maze_prop \<times> bool) set \<times> bool \<Rightarrow> 'h) \<Rightarrow> clause_set \<Rightarrow> MazeClause \<Rightarrow> clause_set" where
  "set_add_with h s c = (if set_contains_with h s c then s else s @ [c])"

definition set_update_with :: "((maze_prop \<times> bool) set \<times> bool \<Rightarrow> 'h) \<Rightarrow> clause_set \<Rightarrow> clause_set \<Rightarrow> clause_set" where
  "set_update_with h s t = fold (\<lambda>c acc. set_add_with h acc c) t s"

definition set_issubset_with :: "((maze_prop \<times> bool) set \<times> bool \<Rightarrow> 'h) \<Rightarrow> clause_set \<Rightarrow> clause_set \<Rightarrow> bool" where
  "set_issubset_with h s t = list_all (set_contains_with h t) s"

definition resolve_with :: "((maze_prop \<times> bool) set \<times> bool \<Rightarrow> 'h) \<Rightarrow> MazeClause \<Rightarrow> MazeClause \<Rightarrow> clause_set" where
  "resolve_with h c1 c2 =
     (let resolvents = [];
          cps = complementary_props c1 c2
      in if length cps \<noteq> 1 then resolvents
         else
           let complementary_prop = hd cps;
               new_props = AList.delete complementary_prop (dict_merge (props c1) (props c2));
               new_clause = MazeClause_init new_props
           in if \<not> valid new_clause then set_add_with h resolvents new_clause else resolvents)"

fun ask_for_with ::
  "((maze_prop \<times> bool) set \<times> bool \<Rightarrow> 'h) \<Rightarrow> (MazeClause \<times> MazeClause) list \<Rightarrow> clause_set
     \<Rightarrow> bool + clause_set" where
  "ask_for_with h [] new = Inr new"
| "ask_for_with h ((clause1, clause2) # rest) new =
     (let resolved_clauses = resolve_with h clause1 clause2
      in if set_contains_with h resolved_clauses (MazeClause_init []) then Inl True
         else ask_for_with h rest (set_update_with h new resolved_clauses))"

partial_function (option) ask_while_with ::
  "((maze_prop \<times> bool) set \<times> bool \<Rightarrow> 'h) \<Rightarrow> clause_set \<Rightarrow> clause_set \<Rightarrow> bool option" where
  "ask_while_with h temp_kb new =
     (case ask_for_with h (combinations2 temp_kb) new of
        Inl b \<Rightarrow> Some b
      | Inr new' \<Rightarrow>
          if set_issubset_with h new' temp_kb then Some False
          else ask_while_with h (set_update_with h temp_kb new') new')"

declare ask_while_with.simps [code]

definition ask_with ::
  "((maze_prop \<times> bool) set \<times> bool \<Rightarrow> 'h) \<Rightarrow> MazeKnowledgeBase \<Rightarrow> MazeClause
     \<Rightarrow> (bool \<times> MazeKnowledgeBase) option" where
  "ask_with h kb query =
     (let negated_props = fold (\<lambda>(k, val) d. AList.update k (\<not> val) d) (props query) [];
          negated_query = MazeClause_init negated_props;
          temp_kb = set_add_with h (deepcopy (clauses kb)) negated_query;
          new = []
      in map_option (\<lambda>b. (b, kb)) (ask_while_with h temp_kb new))"

section \<open>Propositional meaning\<close>

text \<open>
  A clause is the disjunction of its propositions, each read with its polarity; a valid
  clause is true. A set of clauses is their conjunction.
\<close>

type_synonym valuation = "maze_prop \<Rightarrow> bool"

definition clause_holds :: "valuation \<Rightarrow> MazeClause \<Rightarrow> bool" where
  "clause_holds v c = (valid c \<or> (\<exists>(p, b) \<in> set (props c). v p = b))"

definition store_holds :: "valuation \<Rightarrow> clause_set \<Rightarrow> bool" where
  "store_holds v s = (\<forall>c \<in> set s. clause_holds v c)"

definition entails :: "clause_set \<Rightarrow> MazeClause \<Rightarrow> bool" where
  "entails s query = (\<forall>v. store_holds v s \<longrightarrow> clause_holds v query)"

section \<open>Well-formed clauses\<close>

text \<open>
  What the constructor guarantees of every clause object: the keys of the dictionary
  are distinct, and a valid clause has an empty dictionary.
\<close>

definition wf_clause :: "MazeClause \<Rightarrow> bool" where
  "wf_clause c = (distinct (map fst (props c)) \<and> (\<not> valid c \<or> props c = []))"

text \<open>
  The complementary propositions of two clauses in the words of the specification: the
  propositions that both clauses hold, with opposite polarities.
\<close>

definition complementary :: "MazeClause \<Rightarrow> MazeClause \<Rightarrow> maze_prop set" where
  "complementary c1 c2 = {p. \<exists>b. get_prop c1 p = Some b \<and> get_prop c2 p = Some (\<not> b)}"

text \<open>
  Equality of two Python sets: they have the same number of elements and every element
  of the first is contained in the second.
\<close>

definition set_eq :: "clause_set \<Rightarrow> clause_set \<Rightarrow> bool" where
  "set_eq s t = (length s = length t \<and> set_issubset s t)"

text \<open>
  Notions for reasoning about the loop of \<open>ask\<close>: the hashes of the elements of a set,
  the (proposition, polarity) items that occur in a set, the finite universe of hashes
  that can be built from the items of two sets, and the resolvents of a list of pairs.
\<close>

definition hashes :: "clause_set \<Rightarrow> ((maze_prop \<times> bool) set \<times> bool) set" where
  "hashes s = MazeClause_hash ` set s"

definition lits_of :: "clause_set \<Rightarrow> (maze_prop \<times> bool) set" where
  "lits_of s = (\<Union>c \<in> set s. set (props c))"

definition universe :: "clause_set \<Rightarrow> clause_set \<Rightarrow> ((maze_prop \<times> bool) set \<times> bool) set" where
  "universe temp_kb new = Pow (lits_of temp_kb \<union> lits_of new) \<times> UNIV"

definition resolvents_of :: "(MazeClause \<times> MazeClause) list \<Rightarrow> MazeClause set" where
  "resolvents_of ps = (\<Union>(a, b) \<in> set ps. set (resolve a b))"


section \<open>Notions for the correctness of ask\<close>










text \<open>The negated query that \<open>ask\<close> builds.\<close>

definition negate_clause :: "MazeClause \<Rightarrow> MazeClause" where
  "negate_clause query =
     MazeClause_init (fold (\<lambda>(k, val) d. AList.update k (\<not> val) d) (props query) [])"

section \<open>Properties of the constructor\<close>

lemma init_loop_tautology:
  assumes "distinct (map fst d)"
    and "\<exists>p b. ((p, b) \<in> set d \<union> set ps) \<and> ((p, \<not> b) \<in> set d \<union> set ps)"
    and "\<not> (\<exists>p b. (p, b) \<in> set d \<and> (p, \<not> b) \<in> set d)"
  shows "MazeClause_init_loop ps d = \<lparr>props = [], valid = True\<rparr>"
  using assms
proof (induction ps d rule: MazeClause_init_loop.induct)
  case (1 d)
  then show ?case by auto
next
  case (2 p0 tv rest d)
  show ?case
  proof (cases "p0 \<in> fst ` set d")
    case True
    show ?thesis
    proof (cases "map_of d p0 = Some tv")
      case False
      with True show ?thesis by simp
    next
      case same: True
      then have mem: "(p0, tv) \<in> set d" by (rule map_of_SomeD)
      have "\<exists>p b. ((p, b) \<in> set d \<union> set rest) \<and> ((p, \<not> b) \<in> set d \<union> set rest)"
        using "2.prems"(2) mem by auto
      with "2.IH"(1)[OF True _ "2.prems"(1) _ "2.prems"(3)] same True show ?thesis
        by simp
    qed
  next
    case False
    let ?d' = "AList.update p0 tv d"
    have d': "set ?d' = insert (p0, tv) (set d)"
      using False by (induction d) auto
    have dist: "distinct (map fst ?d')"
      using "2.prems"(1) by (simp add: distinct_update)
    have ex: "\<exists>p b. ((p, b) \<in> set ?d' \<union> set rest) \<and> ((p, \<not> b) \<in> set ?d' \<union> set rest)"
      using "2.prems"(2) d' by auto
    have nex: "\<not> (\<exists>p b. (p, b) \<in> set ?d' \<and> (p, \<not> b) \<in> set ?d')"
      using "2.prems"(3) False d' by (auto simp: image_iff)
    from "2.IH"(2)[OF False dist ex nex] False show ?thesis by simp
  qed
qed

lemma update_new_key: "k \<notin> fst ` set d \<Longrightarrow> AList.update k v d = d @ [(k, v)]"
  by (induction d) auto

lemma init_loop_distinct:
  "distinct (map fst (d @ ps)) \<Longrightarrow> MazeClause_init_loop ps d = \<lparr>props = d @ ps, valid = False\<rparr>"
proof (induction ps arbitrary: d)
  case Nil
  then show ?case by simp
next
  case (Cons a ps)
  obtain k v where a: "a = (k, v)" by (cases a)
  have notin: "k \<notin> fst ` set d" using Cons.prems a by auto
  have "distinct (map fst ((d @ [(k, v)]) @ ps))" using Cons.prems a by simp
  from Cons.IH[OF this] notin a show ?case by (simp add: update_new_key)
qed

lemma MazeClause_init_distinct:
  "distinct (map fst d) \<Longrightarrow> MazeClause_init d = \<lparr>props = d, valid = False\<rparr>"
  using init_loop_distinct[of "[]" d] by (simp add: MazeClause_init_def)

lemma init_loop_wf:
  "distinct (map fst d) \<Longrightarrow> wf_clause (MazeClause_init_loop ps d)"
  by (induction ps d rule: MazeClause_init_loop.induct)
     (auto simp: wf_clause_def distinct_update)

lemma wf_clause_init: "wf_clause (MazeClause_init ps)"
  by (simp add: MazeClause_init_def init_loop_wf)

lemma dict_merge_conv:
  "distinct (map fst d2) \<Longrightarrow> map_of (dict_merge d1 d2) = map_of d1 ++ map_of d2"
proof (induction d2 arbitrary: d1)
  case Nil
  then show ?case by (simp add: dict_merge_def)
next
  case (Cons a d2)
  obtain k v where a: "a = (k, v)" by (cases a)
  have k: "k \<notin> dom (map_of d2)" using Cons.prems a by (simp add: dom_map_of_conv_image_fst)
  have "map_of (dict_merge (AList.update k v d1) d2) = map_of (AList.update k v d1) ++ map_of d2"
    using Cons.IH[of "AList.update k v d1"] Cons.prems by simp
  also have "\<dots> = (map_of d1)(k \<mapsto> v) ++ map_of d2"
    by (simp add: update_conv')
  also have "\<dots> = (map_of d1 ++ map_of d2)(k \<mapsto> v)"
    using k by (rule map_add_upd_left)
  also have "\<dots> = map_of d1 ++ map_of ((k, v) # d2)"
    by (simp only: map_of.simps fst_conv snd_conv map_add_upd)
  finally have *: "map_of (dict_merge (AList.update k v d1) d2) = map_of d1 ++ map_of ((k, v) # d2)" .
  have "dict_merge d1 ((k, v) # d2) = dict_merge (AList.update k v d1) d2"
    by (simp add: dict_merge_def)
  with * show ?case unfolding a by (simp only:)
qed

lemma dict_merge_distinct:
  "distinct (map fst d1) \<Longrightarrow> distinct (map fst (dict_merge d1 d2))"
  by (induction d2 arbitrary: d1) (auto simp: dict_merge_def distinct_update)

text \<open>
  Claim C5. When the input sequence holds some proposition with both polarities, the
  constructed clause is valid and stores no proposition.
\<close>

theorem construct_both_polarities:
  assumes "(p, True) \<in> set ps" and "(p, False) \<in> set ps"
  shows "is_valid (MazeClause_init ps) \<and> props (MazeClause_init ps) = []
     \<and> MazeClause_len (MazeClause_init ps) = 0"
proof -
  have "MazeClause_init_loop ps [] = \<lparr>props = [], valid = True\<rparr>"
  proof (rule init_loop_tautology)
    show "\<exists>q b. (q, b) \<in> set [] \<union> set ps \<and> (q, \<not> b) \<in> set [] \<union> set ps"
      using assms by (intro exI[of _ p] exI[of _ True]) simp
  qed simp_all
  then show ?thesis by (simp add: MazeClause_init_def is_valid_def MazeClause_len_def)
qed

theorem construct_both_polarities_witness:
  "((''P'', (1, 1)), True) \<in> set [((''P'', (1, 1)), True), ((''Q'', (2, 1)), True), ((''P'', (1, 1)), False)]
   \<and> ((''P'', (1, 1)), False) \<in> set [((''P'', (1, 1)), True), ((''Q'', (2, 1)), True), ((''P'', (1, 1)), False)]
   \<and> is_valid (MazeClause_init [((''P'', (1, 1)), True), ((''Q'', (2, 1)), True), ((''P'', (1, 1)), False)])
   \<and> props (MazeClause_init [((''P'', (1, 1)), True), ((''Q'', (2, 1)), True), ((''P'', (1, 1)), False)]) = []
   \<and> MazeClause_len (MazeClause_init [((''P'', (1, 1)), True), ((''Q'', (2, 1)), True), ((''P'', (1, 1)), False)]) = 0"
  using construct_both_polarities
    [of "(''P'', (1, 1))" "[((''P'', (1, 1)), True), ((''Q'', (2, 1)), True), ((''P'', (1, 1)), False)]"]
  by simp

section \<open>Properties of resolve, equality and hash\<close>

lemma get_prop_conv: "get_prop c p = map_of (props c) p"
  unfolding get_prop_def using map_of_eq_None_iff[of "props c" p] by auto

lemma get_prop_eq: "get_prop c = map_of (props c)"
  by (rule ext) (rule get_prop_conv)

lemma dom_get_prop: "dom (get_prop c) = fst ` set (props c)"
  by (simp add: get_prop_eq dom_map_of_conv_image_fst)

lemma complementary_sym: "complementary c1 c2 = complementary c2 c1"
  by (auto simp: complementary_def)

lemma finite_complementary: "finite (complementary c1 c2)"
proof (rule finite_subset)
  show "complementary c1 c2 \<subseteq> dom (get_prop c1)" by (auto simp: complementary_def)
  show "finite (dom (get_prop c1))" by (simp add: dom_get_prop)
qed

lemma set_complementary_props: "set (complementary_props c1 c2) = complementary c1 c2"
proof -
  have "p \<in> set (complementary_props c1 c2) \<longleftrightarrow> p \<in> complementary c1 c2" for p
  proof -
    have k1: "p \<in> fst ` set (props c1) \<longleftrightarrow> map_of (props c1) p \<noteq> None"
      using map_of_eq_None_iff[of "props c1" p] by auto
    have k2: "p \<in> fst ` set (props c2) \<longleftrightarrow> map_of (props c2) p \<noteq> None"
      using map_of_eq_None_iff[of "props c2" p] by auto
    have "p \<in> set (complementary_props c1 c2) \<longleftrightarrow>
          map_of (props c1) p \<noteq> None \<and> map_of (props c2) p \<noteq> None
          \<and> map_of (props c1) p \<noteq> map_of (props c2) p"
      unfolding complementary_props_def set_filter set_map using k1 k2 by blast
    also have "\<dots> \<longleftrightarrow> p \<in> complementary c1 c2"
      by (cases "map_of (props c1) p"; cases "map_of (props c2) p")
         (auto simp: complementary_def get_prop_conv)
    finally show ?thesis .
  qed
  then show ?thesis by blast
qed

lemma distinct_complementary_props:
  "wf_clause c1 \<Longrightarrow> distinct (complementary_props c1 c2)"
  by (simp add: complementary_props_def wf_clause_def)

lemma length_complementary_props:
  "wf_clause c1 \<Longrightarrow> length (complementary_props c1 c2) = card (complementary c1 c2)"
  using distinct_card[OF distinct_complementary_props, of c1 c2]
  by (simp add: set_complementary_props)

lemma resolve_not_one:
  "wf_clause c1 \<Longrightarrow> card (complementary c1 c2) \<noteq> 1 \<Longrightarrow> resolve c1 c2 = []"
  by (simp add: resolve_def length_complementary_props)

lemma hd_complementary_props:
  assumes "wf_clause c1" and "complementary c1 c2 = {x}"
  shows "complementary_props c1 c2 = [x]"
proof -
  have "length (complementary_props c1 c2) = 1"
    using assms by (simp add: length_complementary_props)
  then obtain y where "complementary_props c1 c2 = [y]"
    by (cases "complementary_props c1 c2") auto
  moreover from this have "y = x"
    using set_complementary_props[of c1 c2] assms(2) by simp
  ultimately show ?thesis by simp
qed

lemma resolve_one_unfold:
  assumes "wf_clause c1" and "complementary c1 c2 = {x}"
  shows "resolve c1 c2 =
    (if valid (MazeClause_init (AList.delete x (dict_merge (props c1) (props c2)))) then []
     else [MazeClause_init (AList.delete x (dict_merge (props c1) (props c2)))])"
  using hd_complementary_props[OF assms]
  by (simp add: resolve_def Let_def set_add_def set_contains_def)

lemma remainder_explicit:
  assumes "wf_clause c1"
  shows "MazeClause_init (AList.delete x (dict_merge (props c1) (props c2)))
         = \<lparr>props = AList.delete x (dict_merge (props c1) (props c2)), valid = False\<rparr>"
  using assms
  by (intro MazeClause_init_distinct) (simp add: distinct_delete dict_merge_distinct wf_clause_def)

lemma resolve_one:
  assumes "wf_clause c1" and "complementary c1 c2 = {x}"
  shows "resolve c1 c2 = [\<lparr>props = AList.delete x (dict_merge (props c1) (props c2)), valid = False\<rparr>]"
  by (simp add: resolve_one_unfold[OF assms] remainder_explicit[OF assms(1)])

lemma map_of_remainder:
  assumes "wf_clause c2"
  shows "map_of (AList.delete x (dict_merge (props c1) (props c2)))
         = (map_of (props c1) ++ map_of (props c2))(x := None)"
  using assms by (simp add: delete_conv' dict_merge_conv wf_clause_def)

text \<open>
  Claim C2. \<open>resolve\<close> returns the empty set when the clauses share zero or at least two
  complementary propositions. When they share exactly one, \<open>x\<close>, the remainder is the
  clause built from the union of the two mappings without \<open>x\<close>, and \<open>resolve\<close> returns
  the remainder alone, or the empty set when the remainder is a tautology.
\<close>

theorem resolve_spec:
  assumes "wf_clause c1" and "wf_clause c2"
  shows "(card (complementary c1 c2) = 0 \<or> 2 \<le> card (complementary c1 c2) \<longrightarrow> resolve c1 c2 = [])
    \<and> (\<forall>x. complementary c1 c2 = {x} \<longrightarrow>
          (let remainder = MazeClause_init (AList.delete x (dict_merge (props c1) (props c2)))
           in get_prop remainder = (get_prop c1 ++ get_prop c2)(x := None)
              \<and> resolve c1 c2 = (if is_valid remainder then [] else [remainder])))"
proof (intro conjI allI impI)
  assume "card (complementary c1 c2) = 0 \<or> 2 \<le> card (complementary c1 c2)"
  then have "card (complementary c1 c2) \<noteq> 1" by auto
  with assms(1) show "resolve c1 c2 = []" by (rule resolve_not_one)
next
  fix x assume x: "complementary c1 c2 = {x}"
  have gp: "get_prop c = map_of (props c)" for c by (rule ext) (rule get_prop_conv)
  have "get_prop (MazeClause_init (AList.delete x (dict_merge (props c1) (props c2))))
          = (get_prop c1 ++ get_prop c2)(x := None)"
    unfolding remainder_explicit[OF assms(1)] gp using map_of_remainder[OF assms(2)] by simp
  moreover note resolve_one_unfold[OF assms(1) x]
  ultimately show "let remainder = MazeClause_init (AList.delete x (dict_merge (props c1) (props c2)))
           in get_prop remainder = (get_prop c1 ++ get_prop c2)(x := None)
              \<and> resolve c1 c2 = (if is_valid remainder then [] else [remainder])"
    by (simp add: Let_def is_valid_def)
qed

lemma merged_maps_commute:
  assumes "complementary c1 c2 = {x}"
  shows "(map_of (props c1) ++ map_of (props c2))(x := None)
       = (map_of (props c2) ++ map_of (props c1))(x := None)"
proof (rule ext)
  fix p
  show "((map_of (props c1) ++ map_of (props c2))(x := None)) p
       = ((map_of (props c2) ++ map_of (props c1))(x := None)) p"
  proof (cases "p = x")
    case True
    then show ?thesis by simp
  next
    case False
    then have "p \<notin> complementary c1 c2" using assms by simp
    then have "\<not> (\<exists>b. map_of (props c1) p = Some b \<and> map_of (props c2) p = Some (\<not> b))"
      by (simp add: complementary_def get_prop_conv)
    with False show ?thesis
      by (cases "map_of (props c1) p"; cases "map_of (props c2) p") (auto simp: map_add_def)
  qed
qed

text \<open>
  Claim C10. \<open>resolve(c1, c2)\<close> and \<open>resolve(c2, c1)\<close> are equal as Python sets, although the
  two dictionaries are merged in argument order.
\<close>

theorem resolve_commutative:
  assumes "wf_clause c1" and "wf_clause c2"
  shows "set_eq (resolve c1 c2) (resolve c2 c1)"
proof (cases "card (complementary c1 c2) = 1")
  case False
  then have "resolve c1 c2 = []" "resolve c2 c1 = []"
    using assms by (simp_all add: resolve_not_one complementary_sym[of c2 c1])
  then show ?thesis by (simp add: set_eq_def set_issubset_def)
next
  case True
  then obtain x where x: "complementary c1 c2 = {x}" by (auto simp: card_1_singleton_iff)
  then have x': "complementary c2 c1 = {x}" by (simp add: complementary_sym)
  let ?d12 = "AList.delete x (dict_merge (props c1) (props c2))"
  let ?d21 = "AList.delete x (dict_merge (props c2) (props c1))"
  have "map_of ?d12 = map_of ?d21"
    using map_of_remainder[OF assms(2), of x c1] map_of_remainder[OF assms(1), of x c2]
      merged_maps_commute[OF x] by simp
  moreover have "distinct (map fst ?d12)" "distinct (map fst ?d21)"
    using assms by (simp_all add: distinct_delete dict_merge_distinct wf_clause_def)
  ultimately have "set ?d12 = set ?d21" by (simp add: map_of_inject_set)
  then show ?thesis
    unfolding resolve_one[OF assms(1) x] resolve_one[OF assms(2) x']
    by (simp add: set_eq_def set_issubset_def set_contains_def same_element_def
        MazeClause_hash_def MazeClause_eq_def)
qed

theorem resolve_spec_witness:
  "wf_clause (MazeClause_init [((''P'', (1, 1)), True), ((''P'', (2, 1)), True)])
   \<and> wf_clause (MazeClause_init [((''P'', (1, 1)), False)])
   \<and> complementary (MazeClause_init [((''P'', (1, 1)), True), ((''P'', (2, 1)), True)])
        (MazeClause_init [((''P'', (1, 1)), False)]) = {(''P'', (1, 1))}
   \<and> resolve (MazeClause_init [((''P'', (1, 1)), True), ((''P'', (2, 1)), True)])
        (MazeClause_init [((''P'', (1, 1)), False)])
       = [\<lparr>props = [((''P'', (2, 1)), True)], valid = False\<rparr>]"
proof -
  let ?a = "MazeClause_init [((''P'', (1, 1)), True), ((''P'', (2, 1)), True)]"
  let ?b = "MazeClause_init [((''P'', (1, 1)), False)]"
  have wf: "wf_clause ?a" "wf_clause ?b" by (rule wf_clause_init)+
  have "complementary_props ?a ?b = [(''P'', (1, 1))]"
    by (simp add: complementary_props_def MazeClause_init_def)
  then have comp: "complementary ?a ?b = {(''P'', (1, 1))}"
    using set_complementary_props[of ?a ?b] by simp
  from resolve_spec[OF wf] comp
  have "let remainder = MazeClause_init (AList.delete (''P'', (1, 1)) (dict_merge (props ?a) (props ?b)))
        in get_prop remainder = (get_prop ?a ++ get_prop ?b)((''P'', (1, 1)) := None)
           \<and> resolve ?a ?b = (if is_valid remainder then [] else [remainder])"
    by blast
  then have "resolve ?a ?b = [\<lparr>props = [((''P'', (2, 1)), True)], valid = False\<rparr>]"
    by (simp add: Let_def MazeClause_init_def dict_merge_def is_valid_def)
  with wf comp show ?thesis by simp
qed

theorem resolve_commutative_witness:
  "wf_clause (MazeClause_init [((''P'', (1, 1)), True), ((''P'', (2, 1)), True)])
   \<and> wf_clause (MazeClause_init [((''P'', (1, 1)), False), ((''P'', (1, 2)), True)])
   \<and> set_eq (resolve (MazeClause_init [((''P'', (1, 1)), True), ((''P'', (2, 1)), True)])
                (MazeClause_init [((''P'', (1, 1)), False), ((''P'', (1, 2)), True)]))
             (resolve (MazeClause_init [((''P'', (1, 1)), False), ((''P'', (1, 2)), True)])
                (MazeClause_init [((''P'', (1, 1)), True), ((''P'', (2, 1)), True)]))
   \<and> resolve (MazeClause_init [((''P'', (1, 1)), True), ((''P'', (2, 1)), True)])
                (MazeClause_init [((''P'', (1, 1)), False), ((''P'', (1, 2)), True)])
       = [\<lparr>props = [((''P'', (2, 1)), True), ((''P'', (1, 2)), True)], valid = False\<rparr>]
   \<and> resolve (MazeClause_init [((''P'', (1, 1)), False), ((''P'', (1, 2)), True)])
                (MazeClause_init [((''P'', (1, 1)), True), ((''P'', (2, 1)), True)])
       = [\<lparr>props = [((''P'', (1, 2)), True), ((''P'', (2, 1)), True)], valid = False\<rparr>]"
proof -
  let ?a = "MazeClause_init [((''P'', (1, 1)), True), ((''P'', (2, 1)), True)]"
  let ?b = "MazeClause_init [((''P'', (1, 1)), False), ((''P'', (1, 2)), True)]"
  have wf: "wf_clause ?a" "wf_clause ?b" by (rule wf_clause_init)+
  have "resolve ?a ?b = [\<lparr>props = [((''P'', (2, 1)), True), ((''P'', (1, 2)), True)], valid = False\<rparr>]"
    by (simp add: resolve_def complementary_props_def MazeClause_init_def dict_merge_def
        set_add_def set_contains_def)
  moreover have "resolve ?b ?a = [\<lparr>props = [((''P'', (1, 2)), True), ((''P'', (2, 1)), True)], valid = False\<rparr>]"
    by (simp add: resolve_def complementary_props_def MazeClause_init_def dict_merge_def
        set_add_def set_contains_def)
  ultimately show ?thesis using wf resolve_commutative[OF wf] by simp
qed

lemma eq_same_keys:
  "MazeClause_eq c1 c2 \<longleftrightarrow> dom (get_prop c1) = dom (get_prop c2) \<and> valid c1 = valid c2"
  by (simp add: MazeClause_eq_def dom_get_prop)

text \<open>
  Claim C4 at the clauses \<open>P(1,1)\<close> and \<open>\<not> P(1,1)\<close>. They have the same keys and the same
  flag and compare equal under \<open>__eq__\<close>, but the tuples that \<open>__hash__\<close> hands to the
  builtin hash differ, because they hold the items with their polarities.
\<close>

theorem eq_but_hash_differs:
  "dom (get_prop (MazeClause_init [((''P'', (1, 1)), True)]))
     = dom (get_prop (MazeClause_init [((''P'', (1, 1)), False)]))
   \<and> valid (MazeClause_init [((''P'', (1, 1)), True)]) = valid (MazeClause_init [((''P'', (1, 1)), False)])
   \<and> MazeClause_eq (MazeClause_init [((''P'', (1, 1)), True)]) (MazeClause_init [((''P'', (1, 1)), False)])
   \<and> MazeClause_hash (MazeClause_init [((''P'', (1, 1)), True)])
       \<noteq> MazeClause_hash (MazeClause_init [((''P'', (1, 1)), False)])"
  by (simp add: dom_get_prop MazeClause_init_def MazeClause_eq_def MazeClause_hash_def)


section \<open>Python sets, and where the propositions of a resolvent come from\<close>

lemma same_element_iff: "same_element c d \<longleftrightarrow> MazeClause_hash c = MazeClause_hash d"
  by (auto simp: same_element_def MazeClause_hash_def MazeClause_eq_def)

lemma set_contains_iff: "set_contains s c \<longleftrightarrow> MazeClause_hash c \<in> hashes s"
  unfolding set_contains_def list_ex_iff same_element_iff hashes_def image_iff by metis

lemma hashes_set_add: "hashes (set_add s c) = insert (MazeClause_hash c) (hashes s)"
  using set_contains_iff[of s c] by (auto simp: set_add_def hashes_def)

lemma set_set_add: "set s \<subseteq> set (set_add s c)" "set (set_add s c) \<subseteq> insert c (set s)"
  by (auto simp: set_add_def)

lemma hashes_set_update: "hashes (set_update s t) = hashes s \<union> hashes t"
proof -
  have "hashes (fold (\<lambda>c acc. set_add acc c) t s) = hashes s \<union> hashes t"
  proof (induction t arbitrary: s)
    case Nil
    then show ?case by (simp add: hashes_def)
  next
    case (Cons a t)
    have "hashes (a # t) = insert (MazeClause_hash a) (hashes t)" by (simp add: hashes_def)
    with Cons[of "set_add s a"] show ?case by (simp add: hashes_set_add)
  qed
  then show ?thesis by (simp add: set_update_def)
qed

lemma set_set_update: "set s \<subseteq> set (set_update s t)" "set (set_update s t) \<subseteq> set s \<union> set t"
proof -
  have "set s \<subseteq> set (fold (\<lambda>c acc. set_add acc c) t s)
      \<and> set (fold (\<lambda>c acc. set_add acc c) t s) \<subseteq> set s \<union> set t"
  proof (induction t arbitrary: s)
    case Nil
    then show ?case by simp
  next
    case (Cons a t)
    from Cons[of "set_add s a"] set_set_add[of s a] show ?case by auto
  qed
  then show "set s \<subseteq> set (set_update s t)" "set (set_update s t) \<subseteq> set s \<union> set t"
    by (simp_all add: set_update_def)
qed

lemma set_issubset_iff: "set_issubset s t \<longleftrightarrow> hashes s \<subseteq> hashes t"
  by (auto simp: set_issubset_def list_all_iff set_contains_iff hashes_def)

lemma hash_in_hashes: "c \<in> set s \<Longrightarrow> MazeClause_hash c \<in> hashes s"
  by (simp add: hashes_def)


lemma finite_universe: "finite (universe temp_kb new)"
  by (simp add: universe_def lits_of_def)

subsection \<open>Where the propositions of a resolvent come from\<close>

lemma set_alist_update: "set (AList.update k v d) \<subseteq> insert (k, v) (set d)"
  by (induction d) auto

lemma set_alist_delete: "set (AList.delete k d) \<subseteq> set d"
  by (induction d) auto

lemma set_dict_merge: "set (dict_merge d1 d2) \<subseteq> set d1 \<union> set d2"
proof -
  have "set (fold (\<lambda>(k, v) d. AList.update k v d) d2 d1) \<subseteq> set d1 \<union> set d2"
  proof (induction d2 arbitrary: d1)
    case Nil
    then show ?case by simp
  next
    case (Cons a d2)
    obtain k v where a: "a = (k, v)" by (cases a)
    from Cons[of "AList.update k v d1"] set_alist_update[of k v d1] a show ?case by auto
  qed
  then show ?thesis by (simp add: dict_merge_def)
qed

lemma init_loop_props: "set (props (MazeClause_init_loop ps d)) \<subseteq> set d \<union> set ps"
proof (induction ps d rule: MazeClause_init_loop.induct)
  case (1 d)
  then show ?case by simp
next
  case (2 p0 tv rest d)
  show ?case
  proof (cases "p0 \<in> fst ` set d")
    case True
    with 2(1) show ?thesis by (cases "map_of d p0 = Some tv") auto
  next
    case False
    with 2(2) set_alist_update[of p0 tv d] show ?thesis by auto
  qed
qed

lemma resolve_props:
  assumes "r \<in> set (resolve c1 c2)"
  shows "set (props r) \<subseteq> set (props c1) \<union> set (props c2)"
proof -
  from assms obtain x where
    r: "r = MazeClause_init (AList.delete x (dict_merge (props c1) (props c2)))"
    by (auto simp: resolve_def Let_def set_add_def split: if_splits)
  have "set (props r) \<subseteq> set (AList.delete x (dict_merge (props c1) (props c2)))"
    unfolding r MazeClause_init_def using init_loop_props[of _ "[]"] by simp
  with set_alist_delete[of x "dict_merge (props c1) (props c2)"]
    set_dict_merge[of "props c1" "props c2"] show ?thesis by blast
qed


lemma combinations2_set: "(a, b) \<in> set (combinations2 xs) \<Longrightarrow> a \<in> set xs \<and> b \<in> set xs"
  by (induction xs) auto


subsection \<open>The for loop of ask\<close>


lemma ask_for_Inr:
  "ask_for ps new = Inr new' \<Longrightarrow>
     hashes new' = hashes new \<union> MazeClause_hash ` resolvents_of ps
     \<and> set new' \<subseteq> set new \<union> resolvents_of ps
     \<and> (\<forall>r \<in> resolvents_of ps. MazeClause_hash r \<noteq> MazeClause_hash (MazeClause_init []))"
proof (induction ps new rule: ask_for.induct)
  case (1 new)
  then show ?case by (simp add: resolvents_of_def)
next
  case (2 clause1 clause2 rest new)
  let ?res = "resolve clause1 clause2"
  from 2(2) have ne: "\<not> set_contains ?res (MazeClause_init [])"
    by (auto simp: Let_def split: if_splits)
  with 2(2) have "ask_for rest (set_update new ?res) = Inr new'" by simp
  from 2(1)[OF refl ne this]
  have IH: "hashes new' = hashes (set_update new ?res) \<union> MazeClause_hash ` resolvents_of rest"
    "set new' \<subseteq> set (set_update new ?res) \<union> resolvents_of rest"
    "\<forall>r \<in> resolvents_of rest. MazeClause_hash r \<noteq> MazeClause_hash (MazeClause_init [])"
    by simp_all
  have split: "resolvents_of ((clause1, clause2) # rest) = set ?res \<union> resolvents_of rest"
    by (simp add: resolvents_of_def)
  have a: "hashes new' = hashes new \<union> MazeClause_hash ` resolvents_of ((clause1, clause2) # rest)"
    unfolding split IH(1) hashes_set_update by (auto simp: hashes_def)
  have b: "set new' \<subseteq> set new \<union> resolvents_of ((clause1, clause2) # rest)"
    unfolding split using IH(2) set_set_update(2)[of new ?res] by blast
  have c: "\<forall>r \<in> resolvents_of ((clause1, clause2) # rest).
            MazeClause_hash r \<noteq> MazeClause_hash (MazeClause_init [])"
    unfolding split
  proof
    fix r assume "r \<in> set ?res \<union> resolvents_of rest"
    then show "MazeClause_hash r \<noteq> MazeClause_hash (MazeClause_init [])"
    proof
      assume "r \<in> set ?res"
      then have "MazeClause_hash r \<in> hashes ?res" by (rule hash_in_hashes)
      with ne show ?thesis unfolding set_contains_iff by metis
    next
      assume "r \<in> resolvents_of rest"
      with IH(3) show ?thesis by blast
    qed
  qed
  from a b c show ?case by blast
qed

lemma resolvents_lits:
  "r \<in> resolvents_of (combinations2 temp_kb) \<Longrightarrow> set (props r) \<subseteq> lits_of temp_kb"
proof -
  assume "r \<in> resolvents_of (combinations2 temp_kb)"
  then obtain a b where ab: "(a, b) \<in> set (combinations2 temp_kb)" "r \<in> set (resolve a b)"
    by (auto simp: resolvents_of_def)
  from ab(1) have "a \<in> set temp_kb" "b \<in> set temp_kb" by (auto dest: combinations2_set)
  with resolve_props[OF ab(2)] show ?thesis by (auto simp: lits_of_def)
qed


section \<open>Termination of ask\<close>

lemma ask_while_step_measure:
  assumes "ask_for (combinations2 temp_kb) new = Inr new'"
    and "\<not> set_issubset new' temp_kb"
  shows "card (universe (set_update temp_kb new') new' - hashes (set_update temp_kb new'))
       < card (universe temp_kb new - hashes temp_kb)"
proof -
  let ?temp' = "set_update temp_kb new'"
  note R = ask_for_Inr[OF assms(1)]
  have new'_lits: "lits_of new' \<subseteq> lits_of temp_kb \<union> lits_of new"
  proof
    fix l assume "l \<in> lits_of new'"
    then obtain c where c: "c \<in> set new'" "l \<in> set (props c)" by (auto simp: lits_of_def)
    from c(1) R have "c \<in> set new \<or> c \<in> resolvents_of (combinations2 temp_kb)" by blast
    then show "l \<in> lits_of temp_kb \<union> lits_of new"
    proof
      assume "c \<in> set new"
      with c(2) show ?thesis by (auto simp: lits_of_def)
    next
      assume "c \<in> resolvents_of (combinations2 temp_kb)"
      from resolvents_lits[OF this] c(2) show ?thesis by blast
    qed
  qed
  have temp'_lits: "lits_of ?temp' \<subseteq> lits_of temp_kb \<union> lits_of new"
  proof
    fix l assume "l \<in> lits_of ?temp'"
    then obtain c where c: "c \<in> set ?temp'" "l \<in> set (props c)" by (auto simp: lits_of_def)
    from c(1) set_set_update(2)[of temp_kb new'] have "c \<in> set temp_kb \<or> c \<in> set new'" by blast
    then have "l \<in> lits_of temp_kb \<or> l \<in> lits_of new'" using c(2) by (auto simp: lits_of_def)
    with new'_lits show "l \<in> lits_of temp_kb \<union> lits_of new" by blast
  qed
  have U: "universe ?temp' new' \<subseteq> universe temp_kb new"
    using new'_lits temp'_lits by (auto simp: universe_def)
  have H: "hashes ?temp' = hashes temp_kb \<union> hashes new'" by (rule hashes_set_update)
  from assms(2) have "\<not> hashes new' \<subseteq> hashes temp_kb" by (simp add: set_issubset_iff)
  then obtain h where "h \<in> hashes new'" "h \<notin> hashes temp_kb" by blast
  then obtain c where c: "c \<in> set new'" "MazeClause_hash c \<notin> hashes temp_kb"
    unfolding hashes_def image_iff by metis
  have cU: "MazeClause_hash c \<in> universe temp_kb new"
    using c(1) new'_lits by (auto simp: universe_def MazeClause_hash_def lits_of_def)
  have cH: "MazeClause_hash c \<in> hashes ?temp'"
    unfolding H using c(1) by (simp add: hash_in_hashes)
  have "universe ?temp' new' - hashes ?temp' \<subset> universe temp_kb new - hashes temp_kb"
    using U H c(2) cU cH by blast
  then show ?thesis
    by (intro psubset_card_mono) (simp_all add: finite_universe)
qed

lemma ask_while_induct:
  assumes step: "\<And>temp_kb new.
      (\<And>new'. ask_for (combinations2 temp_kb) new = Inr new' \<Longrightarrow> \<not> set_issubset new' temp_kb
          \<Longrightarrow> P (set_update temp_kb new') new') \<Longrightarrow> P temp_kb new"
  shows "P temp_kb new"
proof (induction "card (universe temp_kb new - hashes temp_kb)" arbitrary: temp_kb new
    rule: less_induct)
  case less
  show ?case
  proof (rule step)
    fix new'
    assume "ask_for (combinations2 temp_kb) new = Inr new'" and "\<not> set_issubset new' temp_kb"
    then have "card (universe (set_update temp_kb new') new' - hashes (set_update temp_kb new'))
       < card (universe temp_kb new - hashes temp_kb)"
      by (rule ask_while_step_measure)
    then show "P (set_update temp_kb new') new'" by (rule less)
  qed
qed

lemma ask_while_terminates: "\<exists>b. ask_while temp_kb new = Some b"
proof (induction temp_kb new rule: ask_while_induct)
  case (1 temp_kb new)
  show ?case
  proof (cases "ask_for (combinations2 temp_kb) new")
    case (Inl b)
    then have "ask_while temp_kb new = Some b" by (subst ask_while.simps) simp
    then show ?thesis by blast
  next
    case (Inr new')
    show ?thesis
    proof (cases "set_issubset new' temp_kb")
      case True
      with Inr have "ask_while temp_kb new = Some False" by (subst ask_while.simps) simp
      then show ?thesis by blast
    next
      case False
      from 1[OF Inr False] obtain b where "ask_while (set_update temp_kb new') new' = Some b" ..
      with Inr False have "ask_while temp_kb new = Some b" by (subst ask_while.simps) simp
      then show ?thesis by blast
    qed
  qed
qed

text \<open>
  Claim C3. \<open>ask\<close> terminates on every store and every query. A store is a finite set of
  clauses, so its propositions form a finite universe; a round of the loop that does
  not return strictly enlarges the working set within the finite set of clauses over
  them (lemma \<open>ask_while_step_measure\<close>).
\<close>

theorem ask_terminates: "\<exists>result. ask kb query = Some result"
proof -
  obtain b where "ask_while (set_add (deepcopy (clauses kb))
      (MazeClause_init (fold (\<lambda>(k, val) d. AList.update k (\<not> val) d) (props query) []))) [] = Some b"
    using ask_while_terminates by blast
  then show ?thesis by (simp add: ask_def Let_def)
qed

text \<open>
  Claim C9. \<open>ask\<close> returns, and the knowledge base holds after the call exactly the set of
  clauses it held before.
\<close>

theorem ask_keeps_store: "\<exists>b kb'. ask kb query = Some (b, kb') \<and> clauses kb' = clauses kb"
proof -
  obtain b where "ask_while (set_add (deepcopy (clauses kb))
      (MazeClause_init (fold (\<lambda>(k, val) d. AList.update k (\<not> val) d) (props query) []))) [] = Some b"
    using ask_while_terminates by blast
  then have "ask kb query = Some (b, kb)" by (simp add: ask_def Let_def)
  then show ?thesis by blast
qed

text \<open>
  Claim C8. On the store that holds exactly \<open>P(1,1) \<or> P(2,1)\<close> and \<open>\<not> P(1,1)\<close>,
  \<open>ask(P(2,1))\<close> returns true.
\<close>

theorem ask_entailment_example:
  "ask (tell (tell MazeKnowledgeBase_init
              (MazeClause_init [((''P'', (1, 1)), True), ((''P'', (2, 1)), True)]))
          (MazeClause_init [((''P'', (1, 1)), False)]))
       (MazeClause_init [((''P'', (2, 1)), True)])
   = Some (True,
       \<lparr>clauses = [MazeClause_init [((''P'', (1, 1)), True), ((''P'', (2, 1)), True)],
                   MazeClause_init [((''P'', (1, 1)), False)]]\<rparr>)"
  by code_simp

section \<open>Resolution closure and models\<close>










section \<open>Soundness of resolve\<close>


lemma is_empty_iff: "is_empty c \<longleftrightarrow> MazeClause_hash c = ({}, False)"
  by (auto simp: is_empty_def MazeClause_hash_def)

















section \<open>Correctness of ask\<close>

lemma nonempty_hash: "\<not> is_empty c \<longleftrightarrow> MazeClause_hash c \<noteq> ({}, False)"
  by (simp add: is_empty_iff)





lemma fold_negate:
  "distinct (map fst (d @ xs)) \<Longrightarrow>
     fold (\<lambda>(k, val) d. AList.update k (\<not> val) d) xs d = d @ map (\<lambda>(k, val). (k, \<not> val)) xs"
proof (induction xs arbitrary: d)
  case Nil
  then show ?case by simp
next
  case (Cons a xs)
  obtain k val where a: "a = (k, val)" by (cases a)
  have notin: "k \<notin> fst ` set d" using Cons.prems a by auto
  have "distinct (map fst ((d @ [(k, \<not> val)]) @ xs))" using Cons.prems a by simp
  from Cons.IH[OF this] notin a show ?case by (simp add: update_new_key)
qed

lemma negate_clause_explicit:
  assumes "wf_clause query"
  shows "negate_clause query = \<lparr>props = map (\<lambda>(k, val). (k, \<not> val)) (props query), valid = False\<rparr>"
proof -
  have d: "distinct (map fst (props query))" using assms by (simp add: wf_clause_def)
  have f: "map fst (map (\<lambda>(k, val). (k, \<not> val)) (props query)) = map fst (props query)"
    by (induction "props query") (auto simp: case_prod_beta)
  have "fold (\<lambda>(k, val) d. AList.update k (\<not> val) d) (props query) []
      = map (\<lambda>(k, val). (k, \<not> val)) (props query)"
    using fold_negate[of "[]" "props query"] d by simp
  moreover have "distinct (map fst (map (\<lambda>(k, val). (k, \<not> val)) (props query)))"
    unfolding f by (rule d)
  ultimately show ?thesis
    unfolding negate_clause_def by (simp only: MazeClause_init_distinct)
qed



lemma negated_lit_rev:
  assumes "wf_clause query" and "(p, b) \<in> set (props (negate_clause query))"
  shows "(p, \<not> b) \<in> set (props query)"
  using assms(2) unfolding negate_clause_explicit[OF assms(1)] by auto




section \<open>Correctness of ask for every builtin hash\<close>


























subsection \<open>The loop of ask returns, whatever the builtin hash is\<close>












text \<open>
  Why the hash must not collide: with a hash that gives clauses with the same keys the
  same value, the store \<open>A\<close>, \<open>B\<close>, \<open>\<not> A \<or> \<not> B \<or> \<not> C\<close>, \<open>A \<or> B\<close>, \<open>A \<or> C\<close>, \<open>B \<or> C\<close>
  entails \<open>\<not> C\<close> and \<open>ask\<close> returns false. Every resolvent of the first round has the keys
  of a stored clause and is taken to be in the working set already.
\<close>

lemma ask_with_colliding_hash_example:
  "ask_with (\<lambda>k :: (maze_prop \<times> bool) set \<times> bool. fst ` fst k)
       \<lparr>clauses = [MazeClause_init [((''P'', (-1, -1)), True)],
                   MazeClause_init [((''P'', (-1, -2)), True)],
                   MazeClause_init [((''P'', (-1, -1)), False), ((''P'', (-1, -2)), False), ((''P'', (-2, -1)), False)],
                   MazeClause_init [((''P'', (-1, -1)), True), ((''P'', (-1, -2)), True)],
                   MazeClause_init [((''P'', (-1, -1)), True), ((''P'', (-2, -1)), True)],
                   MazeClause_init [((''P'', (-1, -2)), True), ((''P'', (-2, -1)), True)]]\<rparr>
       (MazeClause_init [((''P'', (-2, -1)), False)])
     = Some (False,
       \<lparr>clauses = [MazeClause_init [((''P'', (-1, -1)), True)],
                   MazeClause_init [((''P'', (-1, -2)), True)],
                   MazeClause_init [((''P'', (-1, -1)), False), ((''P'', (-1, -2)), False), ((''P'', (-2, -1)), False)],
                   MazeClause_init [((''P'', (-1, -1)), True), ((''P'', (-1, -2)), True)],
                   MazeClause_init [((''P'', (-1, -1)), True), ((''P'', (-2, -1)), True)],
                   MazeClause_init [((''P'', (-1, -2)), True), ((''P'', (-2, -1)), True)]]\<rparr>)
   \<and> entails [MazeClause_init [((''P'', (-1, -1)), True)],
                   MazeClause_init [((''P'', (-1, -2)), True)],
                   MazeClause_init [((''P'', (-1, -1)), False), ((''P'', (-1, -2)), False), ((''P'', (-2, -1)), False)],
                   MazeClause_init [((''P'', (-1, -1)), True), ((''P'', (-1, -2)), True)],
                   MazeClause_init [((''P'', (-1, -1)), True), ((''P'', (-2, -1)), True)],
                   MazeClause_init [((''P'', (-1, -2)), True), ((''P'', (-2, -1)), True)]]
        (MazeClause_init [((''P'', (-2, -1)), False)])"
proof -
  have 1: "ask_with (\<lambda>k :: (maze_prop \<times> bool) set \<times> bool. fst ` fst k)
       \<lparr>clauses = [MazeClause_init [((''P'', (-1, -1)), True)],
                   MazeClause_init [((''P'', (-1, -2)), True)],
                   MazeClause_init [((''P'', (-1, -1)), False), ((''P'', (-1, -2)), False), ((''P'', (-2, -1)), False)],
                   MazeClause_init [((''P'', (-1, -1)), True), ((''P'', (-1, -2)), True)],
                   MazeClause_init [((''P'', (-1, -1)), True), ((''P'', (-2, -1)), True)],
                   MazeClause_init [((''P'', (-1, -2)), True), ((''P'', (-2, -1)), True)]]\<rparr>
       (MazeClause_init [((''P'', (-2, -1)), False)])
     = Some (False,
       \<lparr>clauses = [MazeClause_init [((''P'', (-1, -1)), True)],
                   MazeClause_init [((''P'', (-1, -2)), True)],
                   MazeClause_init [((''P'', (-1, -1)), False), ((''P'', (-1, -2)), False), ((''P'', (-2, -1)), False)],
                   MazeClause_init [((''P'', (-1, -1)), True), ((''P'', (-1, -2)), True)],
                   MazeClause_init [((''P'', (-1, -1)), True), ((''P'', (-2, -1)), True)],
                   MazeClause_init [((''P'', (-1, -2)), True), ((''P'', (-2, -1)), True)]]\<rparr>)"
    by code_simp
  have 2: "entails [MazeClause_init [((''P'', (-1, -1)), True)],
                   MazeClause_init [((''P'', (-1, -2)), True)],
                   MazeClause_init [((''P'', (-1, -1)), False), ((''P'', (-1, -2)), False), ((''P'', (-2, -1)), False)],
                   MazeClause_init [((''P'', (-1, -1)), True), ((''P'', (-1, -2)), True)],
                   MazeClause_init [((''P'', (-1, -1)), True), ((''P'', (-2, -1)), True)],
                   MazeClause_init [((''P'', (-1, -2)), True), ((''P'', (-2, -1)), True)]]
        (MazeClause_init [((''P'', (-2, -1)), False)])"
    by (simp add: entails_def store_holds_def clause_holds_def MazeClause_init_def)
  from 1 2 show ?thesis by blast
qed

section \<open>simplify\_self\<close>

text \<open>
  Claim C6, as amended. On the store that holds exactly \<open>P(1,1) \<or> \<not> P(2,1)\<close>,
  \<open>simplify_self\<close> with \<open>known_pits = {(1,1)}\<close> and no safe location removes that clause
  and leaves the store empty; the resulting store conjoined with the unit fact
  \<open>P(1,1)\<close> is logically equivalent to the original store conjoined with \<open>P(1,1)\<close>.
\<close>

theorem simplify_example:
  "clauses (simplify_self
       (tell MazeKnowledgeBase_init (MazeClause_init [((''P'', (1, 1)), True), ((''P'', (2, 1)), False)]))
       [(1, 1)] []) = []
   \<and> (\<forall>v. store_holds v (clauses (simplify_self
              (tell MazeKnowledgeBase_init
                 (MazeClause_init [((''P'', (1, 1)), True), ((''P'', (2, 1)), False)]))
              [(1, 1)] []))
            \<and> clause_holds v (MazeClause_init [((''P'', (1, 1)), True)])
        \<longleftrightarrow> store_holds v (clauses
              (tell MazeKnowledgeBase_init
                 (MazeClause_init [((''P'', (1, 1)), True), ((''P'', (2, 1)), False)])))
            \<and> clause_holds v (MazeClause_init [((''P'', (1, 1)), True)]))"
proof -
  let ?c = "MazeClause_init [((''P'', (1, 1)), True), ((''P'', (2, 1)), False)]"
  let ?kb = "tell MazeKnowledgeBase_init ?c"
  have run: "clauses (simplify_self ?kb [(1, 1)] []) = []" by code_simp
  have st: "clauses ?kb = [?c]" by code_simp
  have "clause_holds v (MazeClause_init [((''P'', (1, 1)), True)])
      \<longleftrightarrow> store_holds v [?c] \<and> clause_holds v (MazeClause_init [((''P'', (1, 1)), True)])" for v
    by (auto simp: store_holds_def clause_holds_def MazeClause_init_def)
  then show ?thesis unfolding run st by (simp add: store_holds_def)
qed

theorem simplify_example_witness:
  "store_holds (\<lambda>p. p = (''P'', (1, 1))) (clauses (simplify_self
              (tell MazeKnowledgeBase_init
                 (MazeClause_init [((''P'', (1, 1)), True), ((''P'', (2, 1)), False)]))
              [(1, 1)] []))
   \<and> clause_holds (\<lambda>p. p = (''P'', (1, 1))) (MazeClause_init [((''P'', (1, 1)), True)])
   \<and> store_holds (\<lambda>p. p = (''P'', (1, 1))) (clauses
              (tell MazeKnowledgeBase_init
                 (MazeClause_init [((''P'', (1, 1)), True), ((''P'', (2, 1)), False)])))"
proof -
  have "clause_holds (\<lambda>p. p = (''P'', (1, 1))) (MazeClause_init [((''P'', (1, 1)), True)])"
    by (simp add: clause_holds_def MazeClause_init_def)
  moreover have "store_holds (\<lambda>p. p = (''P'', (1, 1))) (clauses (simplify_self
              (tell MazeKnowledgeBase_init
                 (MazeClause_init [((''P'', (1, 1)), True), ((''P'', (2, 1)), False)]))
              [(1, 1)] []))"
    using simplify_example by (simp add: store_holds_def)
  ultimately show ?thesis using simplify_example by blast
qed

text \<open>
  Claim C6 as stated fails: the resulting store is empty, so the valuation that makes
  every proposition false satisfies it, and does not satisfy the original store
  conjoined with \<open>P(1,1)\<close>.
\<close>

theorem simplify_example_counterexample:
  "clauses (simplify_self
       (tell MazeKnowledgeBase_init (MazeClause_init [((''P'', (1, 1)), True), ((''P'', (2, 1)), False)]))
       [(1, 1)] []) = []
   \<and> store_holds (\<lambda>p. False) (clauses (simplify_self
       (tell MazeKnowledgeBase_init (MazeClause_init [((''P'', (1, 1)), True), ((''P'', (2, 1)), False)]))
       [(1, 1)] []))
   \<and> \<not> (store_holds (\<lambda>p. False) (clauses
          (tell MazeKnowledgeBase_init (MazeClause_init [((''P'', (1, 1)), True), ((''P'', (2, 1)), False)])))
        \<and> clause_holds (\<lambda>p. False) (MazeClause_init [((''P'', (1, 1)), True)]))"
proof -
  let ?c = "MazeClause_init [((''P'', (1, 1)), True), ((''P'', (2, 1)), False)]"
  let ?kb = "tell MazeKnowledgeBase_init ?c"
  have run: "clauses (simplify_self ?kb [(1, 1)] []) = []" by code_simp
  have "\<not> clause_holds (\<lambda>p. False) (MazeClause_init [((''P'', (1, 1)), True)])"
    by (simp add: clause_holds_def MazeClause_init_def)
  then show ?thesis unfolding run by (simp add: store_holds_def)
qed

text \<open>
  Claim C7 at the store that holds \<open>P(1,1) \<or> P(2,1)\<close> and \<open>P(1,1) \<or> P(1,2)\<close>, with
  \<open>known_pits = {(1,1)}\<close>: in either iteration order the first call removes only the
  clause it meets first and leaves the loop, and the second call removes the other.
\<close>

theorem simplify_self_second_call_changes:
  "clauses (simplify_self
       \<lparr>clauses = [MazeClause_init [((''P'', (1, 1)), True), ((''P'', (2, 1)), True)],
                   MazeClause_init [((''P'', (1, 1)), True), ((''P'', (1, 2)), True)]]\<rparr>
       [(1, 1)] [])
     = [MazeClause_init [((''P'', (1, 1)), True), ((''P'', (1, 2)), True)]]
   \<and> clauses (simplify_self (simplify_self
       \<lparr>clauses = [MazeClause_init [((''P'', (1, 1)), True), ((''P'', (2, 1)), True)],
                   MazeClause_init [((''P'', (1, 1)), True), ((''P'', (1, 2)), True)]]\<rparr>
       [(1, 1)] []) [(1, 1)] []) = []
   \<and> clauses (simplify_self
       \<lparr>clauses = [MazeClause_init [((''P'', (1, 1)), True), ((''P'', (1, 2)), True)],
                   MazeClause_init [((''P'', (1, 1)), True), ((''P'', (2, 1)), True)]]\<rparr>
       [(1, 1)] [])
     = [MazeClause_init [((''P'', (1, 1)), True), ((''P'', (2, 1)), True)]]
   \<and> clauses (simplify_self (simplify_self
       \<lparr>clauses = [MazeClause_init [((''P'', (1, 1)), True), ((''P'', (1, 2)), True)],
                   MazeClause_init [((''P'', (1, 1)), True), ((''P'', (2, 1)), True)]]\<rparr>
       [(1, 1)] []) [(1, 1)] []) = []"
  by code_simp

text \<open>
  The example in the docstring of \<open>simplify_self\<close>: the store holds
  \<open>P(1,1) \<or> \<not> P(2,1)\<close> and \<open>\<not> P(1,1) \<or> P(1,2)\<close>, and \<open>(1,1)\<close> is a known pit. When the
  first clause is met first the loop is left before the second clause is resolved, and
  \<open>P(1,2)\<close> is not derived; in the other order it is.
\<close>

lemma simplify_self_docstring_example:
  "clauses (simplify_self
       \<lparr>clauses = [MazeClause_init [((''P'', (1, 1)), True), ((''P'', (2, 1)), False)],
                   MazeClause_init [((''P'', (1, 1)), False), ((''P'', (1, 2)), True)]]\<rparr>
       [(1, 1)] [])
     = [MazeClause_init [((''P'', (1, 1)), False), ((''P'', (1, 2)), True)]]
   \<and> clauses (simplify_self
       \<lparr>clauses = [MazeClause_init [((''P'', (1, 1)), False), ((''P'', (1, 2)), True)],
                   MazeClause_init [((''P'', (1, 1)), True), ((''P'', (2, 1)), False)]]\<rparr>
       [(1, 1)] [])
     = [MazeClause_init [((''P'', (1, 1)), False), ((''P'', (1, 2)), True)],
        MazeClause_init [((''P'', (1, 2)), True)]]"
  by code_simp

end
